theory Spec2Isabelle
  imports Main "HOL-Library.AList"
begin

section \<open>Resource records\<close>

text \<open>
  A resource is a document of the \<^verbatim>\<open>resources\<close> collection with the fields
  \<^verbatim>\<open>id\<close>, \<^verbatim>\<open>pid\<close>, \<^verbatim>\<open>name\<close> and \<^verbatim>\<open>code\<close>. An id is a JavaScript number
  holding an integer, or a string. A pid is an id, or missing (\<^verbatim>\<open>null\<close> or \<^verbatim>\<open>undefined\<close>,
  which the code never tells apart: both are falsy and neither is \<^verbatim>\<open>===\<close> to an id).
  Strict equality \<^verbatim>\<open>===\<close> on such values is equality of the constructor and of the
  value, which is HOL's equality on \<open>ident\<close>.
\<close>

datatype ident = IdNum int | IdStr string

record resource =
  id' :: ident
  pid :: "ident option"
  name :: string
  code :: string

text \<open>JavaScript truthiness of a pid: missing, \<^verbatim>\<open>0\<close> and \<^verbatim>\<open>""\<close> are falsy.\<close>

fun truthy :: "ident option \<Rightarrow> bool" where
  "truthy None = False"
| "truthy (Some (IdNum n)) = (n \<noteq> 0)"
| "truthy (Some (IdStr s)) = (s \<noteq> [])"

subsection \<open>Number-to-string conversion\<close>

text \<open>
  \<^verbatim>\<open>Number.prototype.toString\<close> on an integer (below \<^verbatim>\<open>1e21\<close> in magnitude) prints its
  decimal digits with no leading zero, and a minus sign when negative;
  \<^verbatim>\<open>String.prototype.toString\<close> returns the string itself.
\<close>

definition digit_char :: "nat \<Rightarrow> char" where
  "digit_char d = ''0123456789'' ! (d mod 10)"

function string_of_nat :: "nat \<Rightarrow> string" where
  "string_of_nat n =
     (if n < 10 then [digit_char n] else string_of_nat (n div 10) @ [digit_char n])"
  by pat_completeness auto
termination
  by (relation "measure id") auto

declare string_of_nat.simps [simp del]

definition string_of_int :: "int \<Rightarrow> string" where
  "string_of_int i = (if i < 0 then CHR ''-'' # string_of_nat (nat (- i)) else string_of_nat (nat i))"

fun toString :: "ident \<Rightarrow> string" where
  "toString (IdNum n) = string_of_int n"
| "toString (IdStr s) = s"

subsection \<open>Array.prototype.join\<close>

fun join :: "string \<Rightarrow> string list \<Rightarrow> string" where
  "join sep [] = []"
| "join sep [x] = x"
| "join sep (x # y # ys) = x @ sep @ join sep (y # ys)"

section \<open>Path resolution: getResourcePath\<close>

text \<open>
  \<^verbatim>\<open>
  function getResourcePath(resource, tree) {
    const path = [resource.name];
    let parent = tree.find((r) => r.id === resource.pid);
    while (parent) {
      path.unshift(parent.name);
      parent = tree.find((r) => r.id === parent.pid);
    }
    return path.join("-");
  }
  \<close>
  \<open>find_parent\<close> is the call of \<^verbatim>\<open>tree.find\<close>: the first record of the array whose id
  is strictly equal to the given pid, or \<open>None\<close> for \<^verbatim>\<open>undefined\<close>. The \<^verbatim>\<open>while\<close> loop
  has no bound in the source, so it is a partial function: \<open>None\<close> is "the loop never
  exits". \<open>getResourcePath_names\<close> is the array \<^verbatim>\<open>path\<close> at the \<^verbatim>\<open>return\<close>.
\<close>

definition find_parent :: "resource list \<Rightarrow> ident option \<Rightarrow> resource option" where
  "find_parent tree p = find (\<lambda>r. Some (id' r) = p) tree"

partial_function (option) getResourcePath_loop ::
  "resource list \<Rightarrow> string list \<Rightarrow> resource option \<Rightarrow> string list option" where
  "getResourcePath_loop tree path parent =
     (case parent of
        None \<Rightarrow> Some path
      | Some p \<Rightarrow> getResourcePath_loop tree (name p # path) (find_parent tree (pid p)))"

declare getResourcePath_loop.simps [code]

definition getResourcePath_names :: "resource \<Rightarrow> resource list \<Rightarrow> string list option" where
  "getResourcePath_names resource tree =
     getResourcePath_loop tree [name resource] (find_parent tree (pid resource))"

definition getResourcePath :: "resource \<Rightarrow> resource list \<Rightarrow> string option" where
  "getResourcePath resource tree = map_option (join ''-'') (getResourcePath_names resource tree)"

text \<open>
  The parent chain of the specification: the records reached by following pid links
  through \<open>find_parent\<close>, nearest ancestor first, up to a record whose pid matches no id.
  It exists only when the links reach such a record, that is when they do not run into a
  cycle. It is stated on its own, not through the loop, and the loop is compared with it.
\<close>

inductive parent_chain :: "resource list \<Rightarrow> resource option \<Rightarrow> resource list \<Rightarrow> bool" where
  chain_end: "parent_chain tree None []"
| chain_step: "parent_chain tree (find_parent tree (pid p)) ps \<Longrightarrow> parent_chain tree (Some p) (p # ps)"

code_pred parent_chain .

section \<open>The reference token and its scanner\<close>

text \<open>
  The pattern is \<^verbatim>\<open>/getRes\((\d+)\)/\<close>. \<open>match_at s\<close> matches it at the start of \<open>s\<close> and
  returns capture group 1. The literal \<^verbatim>\<open>getRes(\<close> has 7 characters. \<^verbatim>\<open>\d+\<close> is greedy and
  takes the whole digit run; giving digits back cannot help, since the character after a
  shorter run is a digit and not \<^verbatim>\<open>)\<close>. A line is the list of its code units, which is
  what \<^verbatim>\<open>match.index\<close> and \<^verbatim>\<open>position.character\<close> count; the pattern tells apart only the
  characters of \<^verbatim>\<open>getRes(\<close>, the ten digits and \<^verbatim>\<open>)\<close>, so a code unit beyond the range of
  \<open>char\<close> stands for any other character.
\<close>

definition is_digit :: "char \<Rightarrow> bool" where
  "is_digit c = (c \<in> set ''0123456789'')"

definition match_at :: "string \<Rightarrow> string option" where
  "match_at s =
     (if take 7 s = ''getRes('' then
        (let ds = takeWhile is_digit (drop 7 s) in
         if ds \<noteq> [] \<and> take 1 (drop (7 + length ds) s) = '')'' then Some ds else None)
      else None)"

text \<open>
  \<^verbatim>\<open>lineText.matchAll(/.../g)\<close>: every match, left to right, each as the pair of
  \<^verbatim>\<open>match.index\<close> and \<^verbatim>\<open>match[1]\<close>; the search resumes right after a match (whose length
  is 7, the digits and the closing parenthesis) and one character further otherwise.
\<close>

function matchAll :: "nat \<Rightarrow> string \<Rightarrow> (nat \<times> string) list" where
  "matchAll i s =
     (if s = [] then []
      else case match_at s of
        Some ds \<Rightarrow> (i, ds) # matchAll (i + 8 + length ds) (drop (8 + length ds) s)
      | None \<Rightarrow> matchAll (Suc i) (tl s))"
  by pat_completeness auto
termination
  by (relation "measure (\<lambda>(i, s). length s)") auto

declare matchAll.simps [simp del]

text \<open>\<^verbatim>\<open>lineText.match(/.../)\<close> without the \<^verbatim>\<open>g\<close> flag: the leftmost match only.\<close>

definition match_first :: "string \<Rightarrow> (nat \<times> string) option" where
  "match_first s = (case matchAll 0 s of [] \<Rightarrow> None | m # ms \<Rightarrow> Some m)"

text \<open>
  \<^verbatim>\<open>resources.find((r) => r.id.toString() === resourceId)\<close>, used by the scanner and by the
  hover provider.
\<close>

definition find_resource :: "resource list \<Rightarrow> string \<Rightarrow> resource option" where
  "find_resource rs resourceId = find (\<lambda>r. toString (id' r) = resourceId) rs"

subsection \<open>The host's document, cursor and widgets\<close>

text \<open>
  The editor is the host's: a document is what the code reads of it (\<^verbatim>\<open>languageId\<close>,
  \<^verbatim>\<open>lineCount\<close>, \<^verbatim>\<open>lineAt(i).text\<close>), a position is a line and a character offset.
\<close>

record document =
  languageId :: string
  lineCount :: nat
  lineAt :: "nat \<Rightarrow> string"

record position =
  line :: nat
  character :: nat

text \<open>
  A decoration is \<^verbatim>\<open>{range: new vscode.Range(i, idEnd, i, idEnd), renderOptions: {after:
  {contentText: path, color: "gray"}}}\<close>.
\<close>

record decoration =
  range_start :: position
  range_end :: position
  contentText :: string
  color :: string

record status_bar =
  text_of :: string
  shown :: bool

text \<open>
  The state of one scan: the local array \<^verbatim>\<open>decorations\<close> and the status bar item (its
  two colours are set to the constants they already have since activation).
\<close>

record scan_state =
  decorations :: "decoration list"
  statusBarItem :: status_bar

subsection \<open>handleSelectionChange\<close>

text \<open>
  \<open>scan_match\<close> is the body of the inner loop, lines 169 to 200, for one match on line
  \<open>i\<close>. It returns \<open>None\<close> when \<^verbatim>\<open>getResourcePath\<close> does not return.
\<close>

definition scan_match ::
  "resource list \<Rightarrow> position \<Rightarrow> nat \<Rightarrow> nat \<times> string \<Rightarrow> scan_state \<Rightarrow> scan_state option" where
  "scan_match rs active i m st =
     (let resourceId = snd m in
      case find_resource rs resourceId of
        None \<Rightarrow> Some st
      | Some resource \<Rightarrow>
          (case getResourcePath resource rs of
             None \<Rightarrow> None
           | Some path \<Rightarrow>
               (let idStart = fst m + 7;
                    idEnd = idStart + length resourceId;
                    isOnId = (line active = i \<and> character active \<ge> idStart \<and> character active \<le> idEnd);
                    st1 = (if \<not> isOnId
                           then st\<lparr>decorations := decorations st @
                                  [\<lparr>range_start = \<lparr>line = i, character = idEnd\<rparr>,
                                    range_end = \<lparr>line = i, character = idEnd\<rparr>,
                                    contentText = path, color = ''gray''\<rparr>]\<rparr>
                           else st);
                    st2 = (if isOnId
                           then st1\<lparr>statusBarItem := \<lparr>text_of = resourceId @ '':'' @ path, shown = True\<rparr>\<rparr>
                           else st1)
                in Some st2)))"

fun scan_matches ::
  "resource list \<Rightarrow> position \<Rightarrow> nat \<Rightarrow> (nat \<times> string) list \<Rightarrow> scan_state \<Rightarrow> scan_state option" where
  "scan_matches rs active i [] st = Some st"
| "scan_matches rs active i (m # ms) st =
     (case scan_match rs active i m st of
        None \<Rightarrow> None
      | Some st' \<Rightarrow> scan_matches rs active i ms st')"

function scan_lines ::
  "resource list \<Rightarrow> position \<Rightarrow> document \<Rightarrow> nat \<Rightarrow> scan_state \<Rightarrow> scan_state option" where
  "scan_lines rs active doc i st =
     (if i < lineCount doc then
        (case scan_matches rs active i (matchAll 0 (lineAt doc i)) st of
           None \<Rightarrow> None
         | Some st' \<Rightarrow> scan_lines rs active doc (Suc i) st')
      else Some st)"
  by pat_completeness auto
termination
  by (relation "measure (\<lambda>(rs, active, doc, i, st). lineCount doc - i)") auto

declare scan_lines.simps [simp del]

text \<open>
  The editor as the handler leaves it: the decorations set on it and the status bar item.
  A document of another language returns at once and changes nothing.
\<close>

record editor =
  editor_decorations :: "decoration list"
  editor_statusBar :: status_bar

definition handleSelectionChange ::
  "resource list \<Rightarrow> document \<Rightarrow> position \<Rightarrow> editor \<Rightarrow> editor option" where
  "handleSelectionChange rs doc active ed =
     (if languageId doc \<noteq> ''javascript'' then Some ed
      else case scan_lines rs active doc 0 \<lparr>decorations = [], statusBarItem = editor_statusBar ed\<rparr> of
        None \<Rightarrow> None
      | Some st \<Rightarrow> Some \<lparr>editor_decorations = decorations st, editor_statusBar = statusBarItem st\<rparr>)"

subsection \<open>provideHover\<close>

text \<open>
  The hover content is a Markdown string built by \<^verbatim>\<open>appendCodeblock(path, "typescript")\<close>,
  \<^verbatim>\<open>appendText("\n")\<close> and \<^verbatim>\<open>appendCodeblock(resource.code, "css")\<close>. The outer option is
  "returns"; the inner one is the hover, \<open>None\<close> for \<^verbatim>\<open>undefined\<close>.
\<close>

datatype md_part = Codeblock string string | Text string

definition provideHover ::
  "resource list \<Rightarrow> document \<Rightarrow> position \<Rightarrow> md_part list option option" where
  "provideHover rs doc pos =
     (let lineText = lineAt doc (line pos) in
      case match_first lineText of
        None \<Rightarrow> Some None
      | Some m \<Rightarrow>
          (let resourceId = snd m in
           case find_resource rs resourceId of
             None \<Rightarrow> Some None
           | Some resource \<Rightarrow>
               (case getResourcePath resource rs of
                  None \<Rightarrow> None
                | Some path \<Rightarrow>
                    Some (Some [Codeblock path ''typescript'', Text [CHR 0x0A],
                                Codeblock (code resource) ''css'']))))"

section \<open>Tree construction: buildResourceTree\<close>

text \<open>
  \<^verbatim>\<open>
  function buildResourceTree(resources) {
    const tree = {};
    resources.forEach((resource) => {
      tree[resource.id] = { ...resource, children: [] };
    });
    resources.forEach((resource) => {
      if (resource.pid && tree[resource.pid]) {
        tree[resource.pid].children.push(tree[resource.id]);
      }
    });
    return Object.values(tree).filter((resource) => !resource.pid);
  }
  \<close>
  \<^verbatim>\<open>tree\<close> is a JavaScript object: its own properties, keyed by strings, in the order of
  their first assignment. A number used as a key is converted by \<^verbatim>\<open>ToPropertyKey\<close>, which
  prints it as \<^verbatim>\<open>toString\<close> does, so the ids \<^verbatim>\<open>7\<close> and \<^verbatim>\<open>"7"\<close> name the same property.
  A node is the copy of a record with its array \<^verbatim>\<open>children\<close>. The elements of
  \<^verbatim>\<open>children\<close> are references to node objects of \<^verbatim>\<open>tree\<close>; after the first pass every
  node object of \<^verbatim>\<open>tree\<close> is the value of exactly one property, so a reference is
  modelled as the key of that property and \<^verbatim>\<open>tree\<close> is the store that resolves it.

  The model covers the own properties of \<^verbatim>\<open>tree\<close>. A key that is the name of a property
  of \<^verbatim>\<open>Object.prototype\<close> would reach the property \<^verbatim>\<open>tree\<close> inherits; \<open>plain_keys\<close> says
  that no id and no pid of the snapshot is such a name, and is assumed wherever that
  matters.
\<close>

record node = resource +
  children :: "string list"

type_synonym js_object = "(string \<times> node) list"

definition ToPropertyKey :: "ident \<Rightarrow> string" where
  "ToPropertyKey i = toString i"

definition prototype_names :: "string list" where
  "prototype_names =
     [''constructor'', ''__proto__'', ''hasOwnProperty'', ''isPrototypeOf'',
      ''propertyIsEnumerable'', ''toLocaleString'', ''toString'', ''valueOf'',
      ''__defineGetter__'', ''__defineSetter__'', ''__lookupGetter__'', ''__lookupSetter__'']"

definition plain_keys :: "resource list \<Rightarrow> bool" where
  "plain_keys rs =
     list_all (\<lambda>r. ToPropertyKey (id' r) \<notin> set prototype_names \<and>
                    (case pid r of None \<Rightarrow> True | Some p \<Rightarrow> ToPropertyKey p \<notin> set prototype_names)) rs"

text \<open>The first \<^verbatim>\<open>forEach\<close>: \<^verbatim>\<open>tree[resource.id] = { ...resource, children: [] }\<close>.\<close>

definition new_node :: "resource \<Rightarrow> node" where
  "new_node r = \<lparr>id' = id' r, pid = pid r, name = name r, code = code r, children = []\<rparr>"

definition add_node :: "js_object \<Rightarrow> resource \<Rightarrow> js_object" where
  "add_node tree r = AList.update (ToPropertyKey (id' r)) (new_node r) tree"

text \<open>
  The second \<^verbatim>\<open>forEach\<close>: when the pid is truthy and \<^verbatim>\<open>tree\<close> has a node under it, the
  reference to the node under the record's own id is pushed onto that node's children.
\<close>

definition attach :: "js_object \<Rightarrow> resource \<Rightarrow> js_object" where
  "attach tree r =
     (case pid r of
        None \<Rightarrow> tree
      | Some p \<Rightarrow>
          if truthy (Some p) \<and> map_of tree (ToPropertyKey p) \<noteq> None
          then AList.map_entry (ToPropertyKey p)
                 (\<lambda>n. n\<lparr>children := children n @ [ToPropertyKey (id' r)]\<rparr>) tree
          else tree)"

definition build_tree :: "resource list \<Rightarrow> js_object" where
  "build_tree rs = foldl attach (foldl add_node [] rs) rs"

text \<open>
  \<^verbatim>\<open>Object.values\<close> lists the values of the array-index keys first, in ascending numeric
  order, then those of the other keys in insertion order. An array index is the canonical
  decimal string of an integer from 0 to \<open>2\<^sup>3\<^sup>2 - 2\<close>.
\<close>

definition int_of_string :: "string \<Rightarrow> int" where
  "int_of_string s = foldl (\<lambda>n c. 10 * n + (of_char c - 48)) 0 s"

definition is_array_index :: "string \<Rightarrow> bool" where
  "is_array_index s =
     (s \<noteq> [] \<and> list_all is_digit s \<and> (if hd s = CHR ''0'' then s = ''0'' else True) \<and>
      int_of_string s < 4294967295)"

definition Object_values :: "js_object \<Rightarrow> node list" where
  "Object_values tree =
     map snd (sort_key (\<lambda>e. int_of_string (fst e)) (filter (\<lambda>e. is_array_index (fst e)) tree) @
              filter (\<lambda>e. \<not> is_array_index (fst e)) tree)"

definition buildResourceTree :: "resource list \<Rightarrow> node list" where
  "buildResourceTree rs = filter (\<lambda>n. \<not> truthy (pid n)) (Object_values (build_tree rs))"

section \<open>The snapshot and its refresh: fetchResources\<close>

text \<open>
  \<^verbatim>\<open>
  async function fetchResources() {
    const client = new MongoClient(uri);
    try {
      await client.connect();
      const database = client.db("mpadmin");
      const collection = database.collection("resources");
      resources = await collection.find().toArray();
    } catch (error) {
      console.error("Error fetching resources:", error);
      vscode.window.showErrorMessage(
        "Failed to fetch resources. Please check your database connection.");
    } finally {
      await client.close();
    }
  }
  \<close>
  The database is outside the program: one run of the function meets an environment that
  says whether \<^verbatim>\<open>connect\<close> succeeds, what \<^verbatim>\<open>toArray\<close> yields (\<open>None\<close> when the query
  fails) and whether \<^verbatim>\<open>close\<close> succeeds. The state of the extension is the module variable
  \<^verbatim>\<open>resources\<close>, with the messages shown to the user and the lines written to the console.
  The result is how the promise of the \<^verbatim>\<open>async\<close> function settles, which is all its caller
  gets: the \<^verbatim>\<open>catch\<close> block handles a failure of the \<^verbatim>\<open>try\<close> block, so only a failing
  \<^verbatim>\<open>close\<close> rejects it.
\<close>

record db_env =
  connect_ok :: bool
  toArray :: "resource list option"
  close_ok :: bool

datatype message = ErrorMessage string | InformationMessage string

record extension_state =
  resources :: "resource list"
  messages :: "message list"
  console :: "string list"

datatype settled = Fulfilled | Rejected

definition fetch_failed :: "extension_state \<Rightarrow> extension_state" where
  "fetch_failed st =
     st\<lparr>console := console st @ [''Error fetching resources:''],
        messages := messages st @
          [ErrorMessage ''Failed to fetch resources. Please check your database connection.'']\<rparr>"

definition fetchResources :: "db_env \<Rightarrow> extension_state \<Rightarrow> settled \<times> extension_state" where
  "fetchResources env st =
     (let st1 = (if connect_ok env
                 then (case toArray env of
                         Some docs \<Rightarrow> st\<lparr>resources := docs\<rparr>
                       | None \<Rightarrow> fetch_failed st)
                 else fetch_failed st)
      in (if close_ok env then Fulfilled else Rejected, st1))"

text \<open>
  The command \<^verbatim>\<open>extension.refreshResourcesAndCompletion\<close> awaits \<^verbatim>\<open>fetchResources\<close> and
  then shows its message; a rejection of the awaited promise skips the message.
\<close>

definition refreshCommand :: "db_env \<Rightarrow> extension_state \<Rightarrow> settled \<times> extension_state" where
  "refreshCommand env st =
     (case fetchResources env st of
        (Rejected, st1) \<Rightarrow> (Rejected, st1)
      | (Fulfilled, st1) \<Rightarrow>
          (Fulfilled, st1\<lparr>messages := messages st1 @ [InformationMessage ''resources data refreshed.'']\<rparr>))"

section \<open>Notions of the specification\<close>

text \<open>
  The property key of a record, the key under which the second pass of
  \<^verbatim>\<open>buildResourceTree\<close> looks for the parent of a record (none when the pid is falsy),
  the record a node was copied from, and the last record of the snapshot with a given
  key, which is the one the first pass leaves in \<^verbatim>\<open>tree\<close>.
\<close>

definition key_of :: "resource \<Rightarrow> string" where
  "key_of r = ToPropertyKey (id' r)"

definition parent_key :: "resource \<Rightarrow> string option" where
  "parent_key r =
     (case pid r of
        None \<Rightarrow> None
      | Some p \<Rightarrow> if truthy (Some p) then Some (ToPropertyKey p) else None)"

definition resource_of :: "node \<Rightarrow> resource" where
  "resource_of n = \<lparr>id' = id' n, pid = pid n, name = name n, code = code n\<rparr>"

definition last_record :: "resource list \<Rightarrow> string \<Rightarrow> resource option" where
  "last_record rs k = find (\<lambda>r. key_of r = k) (rev rs)"

text \<open>
  The scanner, in the words of the specification. A scanned occurrence is a match \<open>m\<close>
  (its index and its digit run) on a line \<open>i\<close> of the document. With \<open>idStart\<close> the index
  plus 7 and \<open>idEnd\<close> that plus the number of digits, \<open>cursorOverlap\<close> is "the active cursor
  is on the same line and its character offset falls within \<open>[idStart, idEnd]\<close> inclusive",
  the annotation is the decoration at \<open>idEnd\<close> that shows the path, and the status payload is
  \<^verbatim>\<open><id>:<path>\<close>. An occurrence resolves to a path when its digit run finds a record and
  the walk from that record returns the path.
\<close>

definition cursorOverlap :: "position \<Rightarrow> nat \<Rightarrow> nat \<times> string \<Rightarrow> bool" where
  "cursorOverlap active i m =
     (line active = i \<and> fst m + 7 \<le> character active \<and>
      character active \<le> fst m + 7 + length (snd m))"

definition annotation :: "nat \<Rightarrow> nat \<times> string \<Rightarrow> string \<Rightarrow> decoration" where
  "annotation i m path =
     \<lparr>range_start = \<lparr>line = i, character = fst m + 7 + length (snd m)\<rparr>,
      range_end = \<lparr>line = i, character = fst m + 7 + length (snd m)\<rparr>,
      contentText = path, color = ''gray''\<rparr>"

definition status_payload :: "nat \<times> string \<Rightarrow> string \<Rightarrow> status_bar" where
  "status_payload m path = \<lparr>text_of = snd m @ '':'' @ path, shown = True\<rparr>"

definition resolves_to :: "resource list \<Rightarrow> nat \<times> string \<Rightarrow> string \<Rightarrow> bool" where
  "resolves_to rs m path =
     (\<exists>r. find_resource rs (snd m) = Some r \<and> getResourcePath r rs = Some path)"

definition occurs :: "document \<Rightarrow> nat \<Rightarrow> nat \<times> string \<Rightarrow> bool" where
  "occurs doc i m = (i < lineCount doc \<and> m \<in> set (matchAll 0 (lineAt doc i)))"

text \<open>
  The handler calls \<^verbatim>\<open>getResourcePath\<close> for every occurrence that finds a record, so it
  returns only if each of these walks does.
\<close>

definition walks_return :: "resource list \<Rightarrow> document \<Rightarrow> bool" where
  "walks_return rs doc =
     (\<forall>i m r. occurs doc i m \<longrightarrow> find_resource rs (snd m) = Some r \<longrightarrow>
        getResourcePath r rs \<noteq> None)"

definition annotations_of ::
  "resource list \<Rightarrow> position \<Rightarrow> nat \<Rightarrow> (nat \<times> string) set \<Rightarrow> decoration set" where
  "annotations_of rs active i M =
     {annotation i m path |m path.
        m \<in> M \<and> resolves_to rs m path \<and> \<not> cursorOverlap active i m}"

section \<open>Snapshots and documents used as examples\<close>

text \<open>
  Scenario A of the specification: \<^verbatim>\<open>[{id:1, pid:null, name:"A"}, {id:2, pid:1, name:"B"}]\<close>.
\<close>

definition res_A :: resource where
  "res_A = \<lparr>id' = IdNum 1, pid = None, name = ''A'', code = ''.a {}''\<rparr>"

definition res_B :: resource where
  "res_B = \<lparr>id' = IdNum 2, pid = Some (IdNum 1), name = ''B'', code = ''.b {}''\<rparr>"

text \<open>The cycle scenario: \<^verbatim>\<open>[{id:1, pid:2, name:"A"}, {id:2, pid:1, name:"B"}]\<close>.\<close>

definition cyc_1 :: resource where
  "cyc_1 = \<lparr>id' = IdNum 1, pid = Some (IdNum 2), name = ''A'', code = []\<rparr>"

definition cyc_2 :: resource where
  "cyc_2 = \<lparr>id' = IdNum 2, pid = Some (IdNum 1), name = ''B'', code = []\<rparr>"

text \<open>A record whose parent is not in the snapshot: \<^verbatim>\<open>{id:1, pid:99, name:"A"}\<close>.\<close>

definition res_orphan :: resource where
  "res_orphan = \<lparr>id' = IdNum 1, pid = Some (IdNum 99), name = ''A'', code = []\<rparr>"








text \<open>
  One-line JavaScript documents: the line of scenarios B and C, a line with a token whose
  id is in no snapshot used here (scenario D), a line with two tokens, a line with a token
  of scenario A followed by one whose id is in no snapshot, and the tokens
  \<^verbatim>\<open>getRes(7)\<close> and \<^verbatim>\<open>getRes(007)\<close>. The editor starts with no decoration and a hidden,
  empty status bar item.
\<close>

definition doc_B :: document where
  "doc_B = \<lparr>languageId = ''javascript'', lineCount = 1, lineAt = (\<lambda>i. ''x = getRes(2)'')\<rparr>"

definition doc_D :: document where
  "doc_D = \<lparr>languageId = ''javascript'', lineCount = 1, lineAt = (\<lambda>i. ''x = getRes(9)'')\<rparr>"

definition doc_two :: document where
  "doc_two =
     \<lparr>languageId = ''javascript'', lineCount = 1, lineAt = (\<lambda>i. ''getRes(1) getRes(2)'')\<rparr>"

definition doc_unresolved :: document where
  "doc_unresolved =
     \<lparr>languageId = ''javascript'', lineCount = 1, lineAt = (\<lambda>i. ''getRes(1) getRes(9)'')\<rparr>"



definition ed_0 :: editor where
  "ed_0 = \<lparr>editor_decorations = [], editor_statusBar = \<lparr>text_of = [], shown = False\<rparr>\<rparr>"

text \<open>
  A database that refuses the connection, one that answers with scenario A, and an
  extension that holds a snapshot from an earlier refresh.
\<close>

definition env_down :: db_env where
  "env_down = \<lparr>connect_ok = False, toArray = None, close_ok = True\<rparr>"

definition env_up :: db_env where
  "env_up = \<lparr>connect_ok = True, toArray = Some [res_A, res_B], close_ok = True\<rparr>"

definition st_0 :: extension_state where
  "st_0 = \<lparr>resources = [res_A], messages = [], console = []\<rparr>"

section \<open>Path resolution: what the loop computes and when it returns\<close>

inductive_cases chain_SomeE: "parent_chain tree (Some p) ps"
inductive_cases chain_NoneE: "parent_chain tree None ps"

lemma loop_None [simp]: "getResourcePath_loop tree path None = Some path"
  by (simp add: getResourcePath_loop.simps)

lemma loop_Some [simp]:
  "getResourcePath_loop tree path (Some p) =
     getResourcePath_loop tree (name p # path) (find_parent tree (pid p))"
  by (subst getResourcePath_loop.simps) simp

text \<open>Along a finite parent chain the loop returns, with one name prepended per ancestor.\<close>

lemma loop_of_chain:
  "parent_chain tree parent ps \<Longrightarrow>
     getResourcePath_loop tree path parent = Some (rev (map name ps) @ path)"
  by (induction arbitrary: path rule: parent_chain.induct) simp_all

text \<open>
  Conversely a run of the loop that returns has walked a finite parent chain: by the
  induction principle of the least fixed point that defines the loop.
\<close>

lemma chain_of_loop:
  assumes "getResourcePath_loop tree path parent = Some out"
  shows "\<exists>ps. parent_chain tree parent ps \<and> out = rev (map name ps) @ path"
proof (induction tree path parent out rule: getResourcePath_loop.raw_induct)
  case (1 loop tree path parent out)
  show ?case
  proof (cases parent)
    case None
    with 1(2) show ?thesis by (auto intro: chain_end)
  next
    case (Some p)
    with 1(2) have "loop tree (name p # path) (find_parent tree (pid p)) = Some out" by simp
    from 1(1)[OF this] obtain ps where
      "parent_chain tree (find_parent tree (pid p)) ps" "out = rev (map name ps) @ name p # path"
      by blast
    with Some show ?thesis by (intro exI[of _ "p # ps"]) (auto intro: chain_step)
  qed
qed (rule assms)

lemma chain_unique:
  "parent_chain tree parent ps \<Longrightarrow> parent_chain tree parent qs \<Longrightarrow> ps = qs"
proof (induction arbitrary: qs rule: parent_chain.induct)
  case (chain_end tree)
  then show ?case by (auto elim: chain_NoneE)
next
  case (chain_step tree p ps)
  from chain_step.prems obtain qs' where
    "qs = p # qs'" "parent_chain tree (find_parent tree (pid p)) qs'"
    by (auto elim: chain_SomeE)
  with chain_step.IH show ?case by simp
qed

lemma find_parent_scenario_A:
  "find_parent [res_A, res_B] (pid res_B) = Some res_A"
  "find_parent [res_A, res_B] (pid res_A) = None"
  by (simp_all add: find_parent_def res_A_def res_B_def)

lemma chain_scenario_A:
  "parent_chain [res_A, res_B] (find_parent [res_A, res_B] (pid res_B)) [res_A]"
  unfolding find_parent_scenario_A(1)
  by (rule chain_step) (simp add: find_parent_scenario_A(2) chain_end)

lemma find_parent_cycle:
  "find_parent [cyc_1, cyc_2] (pid cyc_1) = Some cyc_2"
  "find_parent [cyc_1, cyc_2] (pid cyc_2) = Some cyc_1"
  by (simp_all add: find_parent_def cyc_1_def cyc_2_def)

text \<open>In the cycle scenario neither record has a finite parent chain.\<close>

lemma cycle_no_chain:
  "\<not> parent_chain [cyc_1, cyc_2] (Some cyc_1) ps \<and> \<not> parent_chain [cyc_1, cyc_2] (Some cyc_2) ps"
proof (induction ps)
  case Nil
  show ?case by (auto elim: chain_SomeE)
next
  case (Cons a ps)
  have "\<not> parent_chain [cyc_1, cyc_2] (Some cyc_1) (a # ps)"
  proof
    assume "parent_chain [cyc_1, cyc_2] (Some cyc_1) (a # ps)"
    then have "parent_chain [cyc_1, cyc_2] (find_parent [cyc_1, cyc_2] (pid cyc_1)) ps"
      by (auto elim: chain_SomeE)
    with find_parent_cycle(1) Cons show False by simp
  qed
  moreover have "\<not> parent_chain [cyc_1, cyc_2] (Some cyc_2) (a # ps)"
  proof
    assume "parent_chain [cyc_1, cyc_2] (Some cyc_2) (a # ps)"
    then have "parent_chain [cyc_1, cyc_2] (find_parent [cyc_1, cyc_2] (pid cyc_2)) ps"
      by (auto elim: chain_SomeE)
    with find_parent_cycle(2) Cons show False by simp
  qed
  ultimately show ?case by simp
qed

lemma loop_cycle:
  "getResourcePath_loop [cyc_1, cyc_2] path (Some cyc_1) = None"
  "getResourcePath_loop [cyc_1, cyc_2] path (Some cyc_2) = None"
proof -
  have "getResourcePath_loop [cyc_1, cyc_2] path (Some p) = None" if "p = cyc_1 \<or> p = cyc_2" for p
  proof (cases "getResourcePath_loop [cyc_1, cyc_2] path (Some p)")
    case None
    then show ?thesis .
  next
    case (Some out)
    from chain_of_loop[OF this] that cycle_no_chain show ?thesis by blast
  qed
  then show "getResourcePath_loop [cyc_1, cyc_2] path (Some cyc_1) = None"
    and "getResourcePath_loop [cyc_1, cyc_2] path (Some cyc_2) = None"
    by simp_all
qed

text \<open>
  Claim C1, as the code has it. The claim says that the walk returns on every snapshot. The
  loop keeps no set of visited ids, so it returns exactly when the parent chain of the
  resource is finite, that is when following pid links from it reaches a record whose pid
  matches no id; the sequence of names it then returns is not empty. In the cycle
  scenario it does not return (\<open>getResourcePath_cycle_counterexample\<close>).
\<close>

theorem getResourcePath_returns_iff_chain:
  "(\<exists>names. getResourcePath_names r tree = Some names \<and> names \<noteq> [] \<and>
             getResourcePath r tree = Some (join ''-'' names))
   \<longleftrightarrow> (\<exists>ps. parent_chain tree (find_parent tree (pid r)) ps)"
proof
  assume "\<exists>names. getResourcePath_names r tree = Some names \<and> names \<noteq> [] \<and>
             getResourcePath r tree = Some (join ''-'' names)"
  then obtain names where
    "getResourcePath_loop tree [name r] (find_parent tree (pid r)) = Some names"
    by (auto simp: getResourcePath_names_def)
  from chain_of_loop[OF this] show "\<exists>ps. parent_chain tree (find_parent tree (pid r)) ps"
    by blast
next
  assume "\<exists>ps. parent_chain tree (find_parent tree (pid r)) ps"
  then obtain ps where "parent_chain tree (find_parent tree (pid r)) ps" ..
  from loop_of_chain[OF this, of "[name r]"]
  show "\<exists>names. getResourcePath_names r tree = Some names \<and> names \<noteq> [] \<and>
             getResourcePath r tree = Some (join ''-'' names)"
    by (simp add: getResourcePath_names_def getResourcePath_def)
qed

theorem getResourcePath_returns_iff_chain_witness:
  "\<exists>names. getResourcePath_names res_B [res_A, res_B] = Some names \<and> names \<noteq> [] \<and>
            getResourcePath res_B [res_A, res_B] = Some (join ''-'' names)"
  using getResourcePath_returns_iff_chain [of res_B "[res_A, res_B]"] chain_scenario_A
  by blast

text \<open>
  The claim C1 as stated fails in its own cycle scenario: for either record of
  \<^verbatim>\<open>[{id:1, pid:2}, {id:2, pid:1}]\<close> the call does not return.
\<close>

theorem getResourcePath_cycle_counterexample:
  "getResourcePath cyc_1 [cyc_1, cyc_2] = None \<and> getResourcePath cyc_2 [cyc_1, cyc_2] = None"
  by (simp only: getResourcePath_def getResourcePath_names_def find_parent_cycle loop_cycle
        option.map)

text \<open>
  Claim C3. When the parent chain of \<open>r\<close> resolves through the \<open>k\<close> ancestors \<open>ps\<close>
  (nearest first), the call returns; the sequence of names has \<open>k + 1\<close> elements, the
  names of the ancestors from the root down and then the name of \<open>r\<close>, which is its
  last element; and the result is that sequence joined with \<^verbatim>\<open>-\<close>. A finite chain is
  what acyclic links give, and it is the only one (\<open>chain_unique\<close>), so \<open>k\<close> is determined
  by \<open>r\<close>; unique ids are not needed, since \<^verbatim>\<open>find\<close> takes the first record with the id.
\<close>

theorem getResourcePath_length:
  assumes "parent_chain tree (find_parent tree (pid r)) ps"
  shows "\<exists>names. getResourcePath_names r tree = Some names \<and>
           length names = length ps + 1 \<and> last names = name r \<and>
           names = rev (map name ps) @ [name r] \<and>
           getResourcePath r tree = Some (join ''-'' names)"
  using loop_of_chain[OF assms, of "[name r]"]
  by (simp add: getResourcePath_names_def getResourcePath_def)

theorem getResourcePath_length_witness:
  "parent_chain [res_A, res_B] (find_parent [res_A, res_B] (pid res_B)) [res_A] \<and>
   getResourcePath_names res_B [res_A, res_B] = Some [''A'', ''B''] \<and>
   getResourcePath res_B [res_A, res_B] = Some ''A-B''"
  using getResourcePath_length [OF chain_scenario_A] chain_scenario_A
  by (auto simp: res_A_def res_B_def)

section \<open>Tree construction: the store after the two passes\<close>

text \<open>
  The first pass leaves, under each key, the copy of the last record with that key; the
  second pass keeps the keys and the copied fields and only appends to children.
\<close>

lemma resource_of_new_node [simp]: "resource_of (new_node r) = r"
  by (simp add: resource_of_def new_node_def)

lemma resource_of_children_update [simp]: "resource_of (n\<lparr>children := c\<rparr>) = resource_of n"
  by (simp add: resource_of_def)

lemma pid_resource_of [simp]: "pid (resource_of n) = pid n"
  by (simp add: resource_of_def)

lemma add_node_keys: "fst ` set (add_node t r) = insert (key_of r) (fst ` set t)"
  by (simp add: add_node_def key_of_def dom_update)

lemma pass1_distinct: "distinct (map fst t) \<Longrightarrow> distinct (map fst (foldl add_node t rs))"
  by (induction rs arbitrary: t) (simp_all add: add_node_def distinct_update)

lemma pass1_map_of:
  "map_of (foldl add_node t rs) k =
     (case last_record rs k of Some r \<Rightarrow> Some (new_node r) | None \<Rightarrow> map_of t k)"
  by (induction rs rule: rev_induct)
     (auto simp: last_record_def add_node_def update_conv' key_of_def)

lemma map_entry_keys: "map fst (AList.map_entry k f xs) = map fst xs"
  by (induction xs) auto

lemma attach_keys: "map fst (attach t r) = map fst t"
  by (simp add: attach_def map_entry_keys split: option.splits)

lemma attach_map_of:
  "map_of (attach t r) k =
     (if parent_key r = Some k
      then map_option (\<lambda>n. n\<lparr>children := children n @ [key_of r]\<rparr>) (map_of t k)
      else map_of t k)"
  by (auto simp: attach_def parent_key_def key_of_def map_of_map_entry split: option.splits)

lemma pass2_keys: "map fst (foldl attach t rs) = map fst t"
  by (induction rs arbitrary: t) (simp_all add: attach_keys)

lemma pass2_map_of:
  "map_of (foldl attach t rs) k =
     map_option (\<lambda>n. n\<lparr>children := children n @ map key_of (filter (\<lambda>r. parent_key r = Some k) rs)\<rparr>)
       (map_of t k)"
proof (induction rs arbitrary: t)
  case Nil
  show ?case by (cases "map_of t k") simp_all
next
  case (Cons r rs)
  show ?case by (cases "map_of t k") (simp_all add: Cons attach_map_of)
qed

lemma build_tree_distinct: "distinct (map fst (build_tree rs))"
  by (simp add: build_tree_def pass2_keys pass1_distinct)

lemma build_tree_map_of:
  "map_of (build_tree rs) k =
     map_option (\<lambda>r. \<lparr>id' = id' r, pid = pid r, name = name r, code = code r,
                        children = map key_of (filter (\<lambda>x. parent_key x = Some k) rs)\<rparr>)
       (last_record rs k)"
  by (cases "last_record rs k") (simp_all add: build_tree_def pass2_map_of pass1_map_of new_node_def)

lemma build_tree_mem:
  "(k, n) \<in> set (build_tree rs) \<longleftrightarrow> map_of (build_tree rs) k = Some n"
  by (simp add: build_tree_distinct)

lemma Object_values_set: "set (Object_values t) = snd ` set t"
  by (auto simp: Object_values_def)

lemma last_record_distinct:
  "distinct (map key_of rs) \<Longrightarrow> r \<in> set rs \<Longrightarrow> last_record rs (key_of r) = Some r"
proof (induction rs rule: rev_induct)
  case Nil
  then show ?case by simp
next
  case (snoc x xs)
  then show ?case by (auto simp: last_record_def)
qed

lemma find_SomeD: "find P xs = Some x \<Longrightarrow> x \<in> set xs \<and> P x"
  by (induction xs) (auto split: if_splits)

lemma last_record_mem: "last_record rs k = Some r \<Longrightarrow> r \<in> set rs \<and> key_of r = k"
  unfolding last_record_def by (auto dest: find_SomeD)

text \<open>The roots are the nodes of the store whose pid is falsy.\<close>

lemma roots_iff:
  "r \<in> resource_of ` set (buildResourceTree rs) \<longleftrightarrow>
     last_record rs (key_of r) = Some r \<and> \<not> truthy (pid r)"
proof
  assume "r \<in> resource_of ` set (buildResourceTree rs)"
  then obtain k n where n: "(k, n) \<in> set (build_tree rs)" "\<not> truthy (pid n)" "r = resource_of n"
    by (auto simp: buildResourceTree_def Object_values_set)
  from n(1) have "map_of (build_tree rs) k = Some n" by (simp add: build_tree_mem)
  then obtain x where x: "last_record rs k = Some x" "resource_of n = x"
    by (auto simp: build_tree_map_of resource_of_def)
  with n last_record_mem[OF x(1)] show "last_record rs (key_of r) = Some r \<and> \<not> truthy (pid r)"
    by auto
next
  assume a: "last_record rs (key_of r) = Some r \<and> \<not> truthy (pid r)"
  then obtain n where n: "map_of (build_tree rs) (key_of r) = Some n" "resource_of n = r"
    by (auto simp: build_tree_map_of resource_of_def)
  then have "(key_of r, n) \<in> set (build_tree rs)" by (simp add: build_tree_mem)
  moreover from n a have "\<not> truthy (pid n)" by (metis pid_resource_of)
  ultimately have "n \<in> set (buildResourceTree rs)"
    by (force simp: buildResourceTree_def Object_values_set)
  with n show "r \<in> resource_of ` set (buildResourceTree rs)" by blast
qed

text \<open>Scenario A has plain and distinct keys.\<close>

lemma plain_scenario_A: "plain_keys [res_A, res_B]"
  by code_simp

lemma distinct_scenario_A: "distinct (map key_of [res_A, res_B])"
  by code_simp

text \<open>
  Claim C2, as the code has it. The claim says that a resource is a root exactly when its
  pid is absent or matches no id of the snapshot. The code filters the nodes by
  \<^verbatim>\<open>!resource.pid\<close>: on a snapshot with plain keys (no id or pid is the name of a property
  of \<^verbatim>\<open>Object.prototype\<close>), a resource is among the roots exactly when its pid is falsy (absent,
  \<^verbatim>\<open>null\<close>, \<^verbatim>\<open>0\<close> or \<^verbatim>\<open>""\<close>) and it is the record its key holds in \<^verbatim>\<open>tree\<close>, the last one
  with that key; with distinct keys, exactly when it is a record of the snapshot with a
  falsy pid. So a record whose truthy pid matches no id is not a root
  (\<open>buildResourceTree_orphan_counterexample\<close>).
\<close>

theorem buildResourceTree_roots:
  assumes "plain_keys rs"
  shows "(r \<in> resource_of ` set (buildResourceTree rs) \<longleftrightarrow>
            last_record rs (key_of r) = Some r \<and> \<not> truthy (pid r)) \<and>
         (distinct (map key_of rs) \<longrightarrow>
            (r \<in> resource_of ` set (buildResourceTree rs) \<longleftrightarrow> r \<in> set rs \<and> \<not> truthy (pid r)))"
  using roots_iff[of r rs] last_record_distinct[of rs r] last_record_mem[of rs "key_of r" r]
  by blast

theorem buildResourceTree_roots_witness:
  "plain_keys [res_A, res_B] \<and> distinct (map key_of [res_A, res_B]) \<and>
   res_A \<in> resource_of ` set (buildResourceTree [res_A, res_B]) \<and>
   res_B \<notin> resource_of ` set (buildResourceTree [res_A, res_B])"
proof -
  have "res_A \<in> set [res_A, res_B]" and "\<not> truthy (pid res_A)" and "truthy (pid res_B)"
    by (simp_all add: res_A_def res_B_def)
  with buildResourceTree_roots [OF plain_scenario_A, of res_A]
    buildResourceTree_roots [OF plain_scenario_A, of res_B]
    plain_scenario_A distinct_scenario_A
  show ?thesis by blast
qed

text \<open>
  The claim C2 as stated fails on \<^verbatim>\<open>[{id:1, pid:99, name:"A"}]\<close>: the pid of the record
  matches no id, and the forest returned is empty.
\<close>

theorem buildResourceTree_orphan_counterexample:
  "res_orphan \<in> set [res_orphan] \<and> find_parent [res_orphan] (pid res_orphan) = None \<and>
   buildResourceTree [res_orphan] = []"
  by code_simp
















text \<open>
  The order of the roots is that of \<^verbatim>\<open>Object.values\<close>, not that of the input: the ids 10,
  \<^verbatim>\<open>"x"\<close> and 9, in this order and all without pid, come back as 9, 10, \<^verbatim>\<open>"x"\<close>.
\<close>

lemma buildResourceTree_root_order_example:
  "map id' (buildResourceTree
     [\<lparr>id' = IdNum 10, pid = None, name = ''a'', code = []\<rparr>,
      \<lparr>id' = IdStr ''x'', pid = None, name = ''b'', code = []\<rparr>,
      \<lparr>id' = IdNum 9, pid = None, name = ''c'', code = []\<rparr>]) =
   [IdNum 9, IdNum 10, IdStr ''x'']"
  by code_simp

section \<open>The token scanner: matches, the loops and the handler\<close>

text \<open>
  A match is the text \<^verbatim>\<open>getRes(\<close>, a non-empty run of digits and \<^verbatim>\<open>)\<close>, found at its index;
  and the matches of a line do not touch: each starts after the closing parenthesis of
  the one before.
\<close>

lemma match_at_Some:
  assumes "match_at s = Some ds"
  shows "\<exists>rest. s = ''getRes('' @ ds @ '')'' @ rest" and "ds \<noteq> []" and "list_all is_digit ds"
proof -
  from assms have a: "take 7 s = ''getRes(''" and b: "ds = takeWhile is_digit (drop 7 s)"
    and c: "ds \<noteq> []" and d: "take 1 (drop (7 + length ds) s) = '')''"
    by (auto simp: match_at_def Let_def split: if_splits)
  show "ds \<noteq> []" by fact
  from b show "list_all is_digit ds" by (auto simp: list_all_iff dest: set_takeWhileD)
  define t where "t = drop 7 s"
  define u where "u = dropWhile is_digit t"
  have s: "s = ''getRes('' @ t"
    using a append_take_drop_id[of 7 s] by (simp add: t_def)
  have t: "t = ds @ u"
    by (simp add: b t_def u_def)
  have "drop (7 + length ds) s = drop (length ds) t"
    by (simp add: t_def add.commute)
  also have "\<dots> = u" by (subst t) simp
  finally have "take 1 u = '')''" using d by simp
  then have "u = '')'' @ tl u" by (cases u) simp_all
  with s t have "s = ''getRes('' @ ds @ '')'' @ tl u" by simp
  then show "\<exists>rest. s = ''getRes('' @ ds @ '')'' @ rest" ..
qed

lemma matchAll_sound:
  "(j, ds) \<in> set (matchAll i0 s) \<Longrightarrow>
     i0 \<le> j \<and> (\<exists>rest. drop (j - i0) s = ''getRes('' @ ds @ '')'' @ rest) \<and> ds \<noteq> [] \<and> list_all is_digit ds"
proof (induction i0 s rule: matchAll.induct)
  case (1 i s)
  show ?case
  proof (cases "s = []")
    case True
    with 1(3) show ?thesis by (simp add: matchAll.simps)
  next
    case ne: False
    show ?thesis
    proof (cases "match_at s")
      case None
      with ne 1(3) have "(j, ds) \<in> set (matchAll (Suc i) (tl s))"
        by (subst (asm) matchAll.simps) simp
      from "1.IH"(1)[OF ne None this] have "Suc i \<le> j"
        and "\<exists>rest. drop (j - Suc i) (tl s) = ''getRes('' @ ds @ '')'' @ rest"
        and "ds \<noteq> []" "list_all is_digit ds"
        by auto
      moreover have "Suc (j - Suc i) = j - i" using \<open>Suc i \<le> j\<close> by simp
      then have "drop (j - Suc i) (tl s) = drop (j - i) s"
        by (metis drop_Suc)
      ultimately show ?thesis by auto
    next
      case (Some ds0)
      with ne 1(3) consider "(j, ds) = (i, ds0)"
        | "(j, ds) \<in> set (matchAll (i + 8 + length ds0) (drop (8 + length ds0) s))"
        by (subst (asm) matchAll.simps) auto
      then show ?thesis
      proof cases
        case 1
        with match_at_Some[OF Some] show ?thesis by simp
      next
        case 2
        from "1.IH"(2)[OF ne Some 2] have "i + 8 + length ds0 \<le> j"
          and "\<exists>rest. drop (j - (i + 8 + length ds0)) (drop (8 + length ds0) s) = ''getRes('' @ ds @ '')'' @ rest"
          and "ds \<noteq> []" "list_all is_digit ds"
          by auto
        moreover have "drop (j - (i + 8 + length ds0)) (drop (8 + length ds0) s) = drop (j - i) s"
          using \<open>i + 8 + length ds0 \<le> j\<close> by (simp add: add.commute) 
        ultimately show ?thesis by auto
      qed
    qed
  qed
qed

lemma matchAll_gaps:
  "sorted_wrt (\<lambda>a b. fst a + 8 + length (snd a) \<le> fst b) (matchAll i0 s)"
proof (induction i0 s rule: matchAll.induct)
  case (1 i s)
  show ?case
  proof (cases "s = []")
    case True
    then show ?thesis by (simp add: matchAll.simps)
  next
    case ne: False
    show ?thesis
    proof (cases "match_at s")
      case None
      with ne 1(1) show ?thesis by (subst matchAll.simps) simp
    next
      case (Some ds0)
      have "\<forall>b \<in> set (matchAll (i + 8 + length ds0) (drop (8 + length ds0) s)). i + 8 + length ds0 \<le> fst b"
        using matchAll_sound by fastforce
      with ne Some 1(2) show ?thesis by (subst matchAll.simps) simp
    qed
  qed
qed

lemma sorted_wrt_cases:
  "sorted_wrt R xs \<Longrightarrow> a \<in> set xs \<Longrightarrow> b \<in> set xs \<Longrightarrow> a = b \<or> R a b \<or> R b a"
  by (induction xs) auto

lemma matchAll_apart:
  assumes "a \<in> set (matchAll i0 s)" "b \<in> set (matchAll i0 s)" "a \<noteq> b"
  shows "fst a + 8 + length (snd a) \<le> fst b \<or> fst b + 8 + length (snd b) \<le> fst a"
  using sorted_wrt_cases[OF matchAll_gaps assms(1,2)] assms(3) by blast

text \<open>The body of the loop, case by case.\<close>

lemma scan_match_resolved:
  assumes "find_resource rs (snd m) = Some r" and "getResourcePath r rs = Some path"
  shows "scan_match rs active i m st =
           Some (if cursorOverlap active i m
                 then st\<lparr>statusBarItem := status_payload m path\<rparr>
                 else st\<lparr>decorations := decorations st @ [annotation i m path]\<rparr>)"
  using assms
  by (simp add: scan_match_def Let_def cursorOverlap_def annotation_def status_payload_def)

lemma scan_match_unresolved:
  "find_resource rs (snd m) = None \<Longrightarrow> scan_match rs active i m st = Some st"
  by (simp add: scan_match_def)

lemma scan_match_cases:
  assumes "scan_match rs active i m st = Some st'"
  obtains (unresolved) "find_resource rs (snd m) = None" "st' = st"
  | (annotated) path where "resolves_to rs m path" "\<not> cursorOverlap active i m"
      "st' = st\<lparr>decorations := decorations st @ [annotation i m path]\<rparr>"
  | (status) path where "resolves_to rs m path" "cursorOverlap active i m"
      "st' = st\<lparr>statusBarItem := status_payload m path\<rparr>"
proof (cases "find_resource rs (snd m)")
  case None
  with assms unresolved show ?thesis by (simp add: scan_match_unresolved)
next
  case (Some r)
  with assms obtain path where p: "getResourcePath r rs = Some path"
    by (cases "getResourcePath r rs") (simp_all add: scan_match_def)
  from Some p have "resolves_to rs m path" by (auto simp: resolves_to_def)
  with assms annotated status scan_match_resolved[OF Some p, of active i st]
  show ?thesis by (cases "cursorOverlap active i m") simp_all
qed

lemma resolves_to_unique: "resolves_to rs m p \<Longrightarrow> resolves_to rs m q \<Longrightarrow> p = q"
  by (auto simp: resolves_to_def)

text \<open>One line: what the inner loop has added when it is done.\<close>

lemma annotations_of_empty [simp]: "annotations_of rs active i {} = {}"
  by (simp add: annotations_of_def)

lemma annotations_of_insert:
  "annotations_of rs active i (insert m M) =
     annotations_of rs active i {m} \<union> annotations_of rs active i M"
  unfolding annotations_of_def by blast

lemma annotations_of_none:
  "(\<And>path. resolves_to rs m path \<Longrightarrow> cursorOverlap active i m) \<Longrightarrow>
     annotations_of rs active i {m} = {}"
  unfolding annotations_of_def by blast

lemma annotations_of_one:
  "resolves_to rs m path \<Longrightarrow> \<not> cursorOverlap active i m \<Longrightarrow>
     annotations_of rs active i {m} = {annotation i m path}"
  unfolding annotations_of_def using resolves_to_unique by blast

lemma scan_match_decorations:
  assumes "scan_match rs active i m st = Some st1"
  shows "set (decorations st1) = set (decorations st) \<union> annotations_of rs active i {m}"
  using assms
proof (cases rule: scan_match_cases)
  case unresolved
  then have "annotations_of rs active i {m} = {}"
    by (intro annotations_of_none) (simp add: resolves_to_def)
  with unresolved show ?thesis by simp
next
  case (annotated path)
  with annotations_of_one[OF annotated(1,2)] show ?thesis by simp
next
  case (status path)
  then have "annotations_of rs active i {m} = {}"
    by (intro annotations_of_none) simp
  with status show ?thesis by simp
qed

lemma scan_matches_decorations:
  "scan_matches rs active i ms st = Some st' \<Longrightarrow>
     set (decorations st') = set (decorations st) \<union> annotations_of rs active i (set ms)"
proof (induction ms arbitrary: st)
  case Nil
  then show ?case by simp
next
  case (Cons m ms)
  from Cons.prems obtain st1 where 1: "scan_match rs active i m st = Some st1"
    and 2: "scan_matches rs active i ms st1 = Some st'"
    by (auto split: option.splits)
  have "set (decorations st') = set (decorations st1) \<union> annotations_of rs active i (set ms)"
    by (rule Cons.IH[OF 2])
  also have "set (decorations st1) = set (decorations st) \<union> annotations_of rs active i {m}"
    by (rule scan_match_decorations[OF 1])
  finally show ?case
    by (simp add: annotations_of_insert[of rs active i m "set ms"] Un_assoc)
qed

lemma scan_matches_status:
  "scan_matches rs active i ms st = Some st' \<Longrightarrow>
     (statusBarItem st' = statusBarItem st \<and>
        (\<forall>m path. m \<in> set ms \<longrightarrow> resolves_to rs m path \<longrightarrow> \<not> cursorOverlap active i m)) \<or>
     (\<exists>m path. m \<in> set ms \<and> resolves_to rs m path \<and> cursorOverlap active i m \<and>
        statusBarItem st' = status_payload m path)"
proof (induction ms arbitrary: st)
  case Nil
  then show ?case by simp
next
  case (Cons m ms)
  from Cons.prems obtain st1 where 1: "scan_match rs active i m st = Some st1"
    and 2: "scan_matches rs active i ms st1 = Some st'"
    by (auto split: option.splits)
  from Cons.IH[OF 2] consider
    (same) "statusBarItem st' = statusBarItem st1"
      "\<forall>m path. m \<in> set ms \<longrightarrow> resolves_to rs m path \<longrightarrow> \<not> cursorOverlap active i m"
    | (later) m' path' where "m' \<in> set ms" "resolves_to rs m' path'" "cursorOverlap active i m'"
      "statusBarItem st' = status_payload m' path'"
    by blast
  then show ?case
  proof cases
    case later
    then have "\<exists>m' path. m' \<in> set (m # ms) \<and> resolves_to rs m' path \<and> cursorOverlap active i m' \<and>
        statusBarItem st' = status_payload m' path"
      by (intro exI[of _ m'] exI[of _ path']) simp
    then show ?thesis ..
  next
    case same
    from 1 show ?thesis
    proof (cases rule: scan_match_cases)
      case unresolved
      then have "\<not> resolves_to rs m path" for path by (simp add: resolves_to_def)
      with unresolved same have "statusBarItem st' = statusBarItem st \<and>
        (\<forall>m' path. m' \<in> set (m # ms) \<longrightarrow> resolves_to rs m' path \<longrightarrow> \<not> cursorOverlap active i m')"
        by simp
      then show ?thesis ..
    next
      case (annotated path)
      with same have "statusBarItem st' = statusBarItem st \<and>
        (\<forall>m' path. m' \<in> set (m # ms) \<longrightarrow> resolves_to rs m' path \<longrightarrow> \<not> cursorOverlap active i m')"
        by simp
      then show ?thesis ..
    next
      case (status path)
      with same have "\<exists>m' path. m' \<in> set (m # ms) \<and> resolves_to rs m' path \<and> cursorOverlap active i m' \<and>
        statusBarItem st' = status_payload m' path"
        by (intro exI[of _ m] exI[of _ path]) simp
      then show ?thesis ..
    qed
  qed
qed

lemma scan_matches_returns:
  assumes "\<forall>m r. m \<in> set ms \<longrightarrow> find_resource rs (snd m) = Some r \<longrightarrow> getResourcePath r rs \<noteq> None"
  shows "\<exists>st'. scan_matches rs active i ms st = Some st'"
  using assms
proof (induction ms arbitrary: st)
  case Nil
  then show ?case by simp
next
  case (Cons m ms)
  have "\<exists>st1. scan_match rs active i m st = Some st1"
  proof (cases "find_resource rs (snd m)")
    case None
    then show ?thesis by (simp add: scan_match_unresolved)
  next
    case (Some r)
    with Cons.prems obtain path where "getResourcePath r rs = Some path" by fastforce
    from scan_match_resolved[OF Some this] show ?thesis by simp
  qed
  then obtain st1 where "scan_match rs active i m st = Some st1" ..
  moreover from Cons have "\<exists>st'. scan_matches rs active i ms st1 = Some st'" by simp
  ultimately show ?case by simp
qed

text \<open>All lines from \<open>i\<close> on: the outer loop.\<close>

lemma scan_lines_unfold:
  "scan_lines rs active doc i st = Some st' \<Longrightarrow> i < lineCount doc \<Longrightarrow>
     \<exists>st1. scan_matches rs active i (matchAll 0 (lineAt doc i)) st = Some st1 \<and>
           scan_lines rs active doc (Suc i) st1 = Some st'"
  by (subst (asm) scan_lines.simps) (auto split: option.splits)

lemma scan_lines_done:
  "\<not> i < lineCount doc \<Longrightarrow> scan_lines rs active doc i st = Some st"
  by (subst scan_lines.simps) simp

lemma scan_lines_decorations:
  "scan_lines rs active doc i st = Some st' \<Longrightarrow>
     set (decorations st') =
       set (decorations st) \<union>
       (\<Union>k \<in> {i..<lineCount doc}. annotations_of rs active k (set (matchAll 0 (lineAt doc k))))"
proof (induction rs active doc i st rule: scan_lines.induct)
  case (1 rs active doc i st)
  show ?case
  proof (cases "i < lineCount doc")
    case False
    with "1.prems" show ?thesis by (simp add: scan_lines_done)
  next
    case True
    from scan_lines_unfold[OF "1.prems" True] obtain st1 where
      a: "scan_matches rs active i (matchAll 0 (lineAt doc i)) st = Some st1"
      and b: "scan_lines rs active doc (Suc i) st1 = Some st'"
      by blast
    from True have r: "{i..<lineCount doc} = insert i {Suc i..<lineCount doc}" by auto
    from "1.IH"[OF True a b] scan_matches_decorations[OF a]
    show ?thesis unfolding r by (simp add: Un_assoc)
  qed
qed

lemma scan_lines_status:
  "scan_lines rs active doc i st = Some st' \<Longrightarrow>
     (statusBarItem st' = statusBarItem st \<and>
        (\<forall>k m path. i \<le> k \<longrightarrow> occurs doc k m \<longrightarrow> resolves_to rs m path \<longrightarrow> \<not> cursorOverlap active k m)) \<or>
     (\<exists>k m path. i \<le> k \<and> occurs doc k m \<and> resolves_to rs m path \<and> cursorOverlap active k m \<and>
        statusBarItem st' = status_payload m path)"
proof (induction rs active doc i st rule: scan_lines.induct)
  case (1 rs active doc i st)
  show ?case
  proof (cases "i < lineCount doc")
    case False
    with "1.prems" show ?thesis by (simp add: scan_lines_done occurs_def)
  next
    case True
    from scan_lines_unfold[OF "1.prems" True] obtain st1 where
      a: "scan_matches rs active i (matchAll 0 (lineAt doc i)) st = Some st1"
      and b: "scan_lines rs active doc (Suc i) st1 = Some st'"
      by blast
    from "1.IH"[OF True a b] consider
      (same) "statusBarItem st' = statusBarItem st1"
        "\<forall>k m path. Suc i \<le> k \<longrightarrow> occurs doc k m \<longrightarrow> resolves_to rs m path \<longrightarrow> \<not> cursorOverlap active k m"
      | (later) k m path where "Suc i \<le> k" "occurs doc k m" "resolves_to rs m path"
          "cursorOverlap active k m" "statusBarItem st' = status_payload m path"
      by blast
    then show ?thesis
    proof cases
      case later
      then have "\<exists>k m path. i \<le> k \<and> occurs doc k m \<and> resolves_to rs m path \<and>
          cursorOverlap active k m \<and> statusBarItem st' = status_payload m path"
        by (intro exI[of _ k] exI[of _ m] exI[of _ path]) simp
      then show ?thesis ..
    next
      case same
      from scan_matches_status[OF a] consider
        (same') "statusBarItem st1 = statusBarItem st"
          "\<forall>m path. m \<in> set (matchAll 0 (lineAt doc i)) \<longrightarrow> resolves_to rs m path \<longrightarrow> \<not> cursorOverlap active i m"
        | (here) m path where "m \<in> set (matchAll 0 (lineAt doc i))" "resolves_to rs m path"
            "cursorOverlap active i m" "statusBarItem st1 = status_payload m path"
        by blast
      then show ?thesis
      proof cases
        case here
        with same(1) True have "\<exists>k m path. i \<le> k \<and> occurs doc k m \<and> resolves_to rs m path \<and>
            cursorOverlap active k m \<and> statusBarItem st' = status_payload m path"
          by (intro exI[of _ i] exI[of _ m] exI[of _ path]) (simp add: occurs_def)
        then show ?thesis ..
      next
        case same'
        have "\<not> cursorOverlap active k m" if "i \<le> k" "occurs doc k m" "resolves_to rs m path" for k m path
        proof (cases "k = i")
          case True
          with that have "m \<in> set (matchAll 0 (lineAt doc i))" by (simp add: occurs_def)
          with same'(2) that(3) True show ?thesis by blast
        next
          case False
          with that have "Suc i \<le> k" by simp
          with same(2) that show ?thesis by blast
        qed
        with same(1) same'(1) have "statusBarItem st' = statusBarItem st \<and>
          (\<forall>k m path. i \<le> k \<longrightarrow> occurs doc k m \<longrightarrow> resolves_to rs m path \<longrightarrow> \<not> cursorOverlap active k m)"
          by simp
        then show ?thesis ..
      qed
    qed
  qed
qed

lemma scan_lines_returns:
  "walks_return rs doc \<Longrightarrow> \<exists>st'. scan_lines rs active doc i st = Some st'"
proof (induction rs active doc i st rule: scan_lines.induct)
  case (1 rs active doc i st)
  show ?case
  proof (cases "i < lineCount doc")
    case False
    then show ?thesis by (simp add: scan_lines_done)
  next
    case True
    with "1.prems" have "\<forall>m r. m \<in> set (matchAll 0 (lineAt doc i)) \<longrightarrow>
        find_resource rs (snd m) = Some r \<longrightarrow> getResourcePath r rs \<noteq> None"
      by (simp add: walks_return_def occurs_def)
    from scan_matches_returns[OF this] obtain st1 where
      a: "scan_matches rs active i (matchAll 0 (lineAt doc i)) st = Some st1" by blast
    from "1.IH"[OF True a "1.prems"] obtain st' where "scan_lines rs active doc (Suc i) st1 = Some st'" ..
    with a True show ?thesis by (subst scan_lines.simps) simp
  qed
qed

text \<open>The handler on a JavaScript document.\<close>

lemma handle_Some:
  assumes "languageId doc = ''javascript''"
    and "handleSelectionChange rs doc active ed = Some ed'"
  obtains st' where
    "scan_lines rs active doc 0 \<lparr>decorations = [], statusBarItem = editor_statusBar ed\<rparr> = Some st'"
    "editor_decorations ed' = decorations st'" "editor_statusBar ed' = statusBarItem st'"
  using assms by (auto simp: handleSelectionChange_def split: option.splits)

lemma handle_returns:
  assumes "languageId doc = ''javascript''" and "walks_return rs doc"
  shows "\<exists>ed'. handleSelectionChange rs doc active ed = Some ed'"
proof -
  from scan_lines_returns[OF assms(2)] obtain st' where
    "scan_lines rs active doc 0 \<lparr>decorations = [], statusBarItem = editor_statusBar ed\<rparr> = Some st'"
    by blast
  with assms(1) show ?thesis by (simp add: handleSelectionChange_def)
qed

lemma handle_decorations:
  assumes "languageId doc = ''javascript''"
    and "handleSelectionChange rs doc active ed = Some ed'"
  shows "set (editor_decorations ed') =
           (\<Union>k \<in> {0..<lineCount doc}. annotations_of rs active k (set (matchAll 0 (lineAt doc k))))"
proof -
  from assms obtain st' where
    a: "scan_lines rs active doc 0 \<lparr>decorations = [], statusBarItem = editor_statusBar ed\<rparr> = Some st'"
    and b: "editor_decorations ed' = decorations st'"
    by (rule handle_Some)
  from scan_lines_decorations[OF a] b show ?thesis by simp
qed

lemma handle_annotated:
  assumes "languageId doc = ''javascript''"
    and "handleSelectionChange rs doc active ed = Some ed'"
    and "occurs doc i m" and "resolves_to rs m path" and "\<not> cursorOverlap active i m"
  shows "annotation i m path \<in> set (editor_decorations ed')"
proof -
  from assms(3,4,5) have "annotation i m path \<in> annotations_of rs active i (set (matchAll 0 (lineAt doc i)))"
    unfolding annotations_of_def occurs_def by blast
  moreover from assms(3) have "i \<in> {0..<lineCount doc}" by (simp add: occurs_def)
  ultimately show ?thesis unfolding handle_decorations[OF assms(1,2)] by blast
qed

lemma handle_no_annotation_at:
  assumes "languageId doc = ''javascript''"
    and "handleSelectionChange rs doc active ed = Some ed'"
    and "occurs doc i m" and "\<And>path. resolves_to rs m path \<Longrightarrow> cursorOverlap active i m"
    and "d \<in> set (editor_decorations ed')"
  shows "range_start d \<noteq> \<lparr>line = i, character = fst m + 7 + length (snd m)\<rparr>"
proof
  assume eq: "range_start d = \<lparr>line = i, character = fst m + 7 + length (snd m)\<rparr>"
  from assms(5) obtain k m' path' where k: "k < lineCount doc"
    and m': "m' \<in> set (matchAll 0 (lineAt doc k))" "resolves_to rs m' path'" "\<not> cursorOverlap active k m'"
    and d: "d = annotation k m' path'"
    unfolding handle_decorations[OF assms(1,2)] annotations_of_def by auto
  from eq d have ki: "k = i" and e: "fst m' + 7 + length (snd m') = fst m + 7 + length (snd m)"
    by (simp_all add: annotation_def)
  from m'(2,3) ki assms(4) have "m' \<noteq> m" by blast
  moreover from assms(3) have "m \<in> set (matchAll 0 (lineAt doc i))" by (simp add: occurs_def)
  ultimately have "fst m' + 8 + length (snd m') \<le> fst m \<or> fst m + 8 + length (snd m) \<le> fst m'"
    using m'(1) ki matchAll_apart by blast
  with e show False by linarith
qed

lemma handle_status:
  assumes "languageId doc = ''javascript''"
    and "handleSelectionChange rs doc active ed = Some ed'"
    and "occurs doc i m" and "resolves_to rs m path" and "cursorOverlap active i m"
  shows "editor_statusBar ed' = status_payload m path"
proof -
  from assms(1,2) obtain st' where
    a: "scan_lines rs active doc 0 \<lparr>decorations = [], statusBarItem = editor_statusBar ed\<rparr> = Some st'"
    and b: "editor_statusBar ed' = statusBarItem st'"
    by (rule handle_Some)
  from scan_lines_status[OF a] assms(3,4,5) obtain k m' path' where
    k: "occurs doc k m'" "resolves_to rs m' path'" "cursorOverlap active k m'"
    and s: "statusBarItem st' = status_payload m' path'"
    by blast
  from k(3) assms(5) have ki: "k = i" by (simp add: cursorOverlap_def)
  have "m' = m"
  proof (rule ccontr)
    assume "m' \<noteq> m"
    moreover from assms(3) k(1) ki have "m \<in> set (matchAll 0 (lineAt doc i))"
      "m' \<in> set (matchAll 0 (lineAt doc i))" by (simp_all add: occurs_def)
    ultimately have "fst m' + 8 + length (snd m') \<le> fst m \<or> fst m + 8 + length (snd m) \<le> fst m'"
      using matchAll_apart by blast
    with k(3) assms(5) show False by (auto simp: cursorOverlap_def)
  qed
  with k(2) assms(4) have "path' = path" by (auto dest: resolves_to_unique)
  with s b \<open>m' = m\<close> show ?thesis by simp
qed

lemma handle_all_unresolved:
  assumes "languageId doc = ''javascript''"
    and "\<And>i m. occurs doc i m \<Longrightarrow> find_resource rs (snd m) = None"
  shows "handleSelectionChange rs doc active ed =
           Some \<lparr>editor_decorations = [], editor_statusBar = editor_statusBar ed\<rparr>"
proof -
  from assms(2) have w: "walks_return rs doc" by (auto simp: walks_return_def)
  from handle_returns[OF assms(1) w] obtain ed' where
    e: "handleSelectionChange rs doc active ed = Some ed'" ..
  from assms(2) have nores: "\<not> resolves_to rs m path" if "occurs doc i m" for i m path
    using that by (auto simp: resolves_to_def)
  have "set (editor_decorations ed') = {}"
    unfolding handle_decorations[OF assms(1) e] annotations_of_def
    using nores by (auto simp: occurs_def)
  then have d: "editor_decorations ed' = []" by simp
  from assms(1) e obtain st' where
    a: "scan_lines rs active doc 0 \<lparr>decorations = [], statusBarItem = editor_statusBar ed\<rparr> = Some st'"
    and b: "editor_statusBar ed' = statusBarItem st'"
    by (rule handle_Some)
  from scan_lines_status[OF a] nores have "statusBarItem st' = editor_statusBar ed" by auto
  with b d e show ?thesis by simp
qed

section \<open>The scanner on an occurrence\<close>

lemma find_resource_mem: "find_resource rs d = Some r \<Longrightarrow> r \<in> set rs"
  by (auto simp: find_resource_def dest: find_SomeD)

lemma walks_return_chains:
  assumes "\<And>r. r \<in> set rs \<Longrightarrow> \<exists>ps. parent_chain rs (find_parent rs (pid r)) ps"
  shows "walks_return rs doc"
  unfolding walks_return_def
proof (intro allI impI)
  fix i m r
  assume "find_resource rs (snd m) = Some r"
  then have "r \<in> set rs" by (rule find_resource_mem)
  from assms[OF this] obtain ps where "parent_chain rs (find_parent rs (pid r)) ps" ..
  from loop_of_chain[OF this, of "[name r]"] show "getResourcePath r rs \<noteq> None"
    by (simp add: getResourcePath_def getResourcePath_names_def)
qed

lemma walks_return_scenario_A: "walks_return [res_A, res_B] doc"
proof (rule walks_return_chains)
  fix r assume "r \<in> set [res_A, res_B]"
  then consider "r = res_A" | "r = res_B" by auto
  then show "\<exists>ps. parent_chain [res_A, res_B] (find_parent [res_A, res_B] (pid r)) ps"
  proof cases
    case 1
    then show ?thesis by (auto simp: find_parent_scenario_A intro: chain_end)
  next
    case 2
    with chain_scenario_A show ?thesis by blast
  qed
qed

text \<open>
  Claim C4. Take an occurrence \<open>m\<close> on line \<open>i\<close> of a JavaScript document whose id finds
  a record with path \<open>path\<close>. The text at its index is \<^verbatim>\<open>getRes(\<close>, the digit run and \<^verbatim>\<open>)\<close>,
  so \<open>idStart\<close> is the offset just after \<^verbatim>\<open>getRes(\<close> and \<open>idEnd\<close> the offset just after the
  digits. The body of the loop decides by \<open>cursorOverlap\<close>: without overlap it appends the
  annotation at \<open>idEnd\<close> with the path and leaves the status bar alone, with overlap it
  appends nothing and sets the status bar to \<^verbatim>\<open><id>:<path>\<close>. And for the whole handler, which
  returns when every walk it starts returns: without overlap the annotation is among the
  decorations it sets; with overlap no decoration it sets stands at \<open>idEnd\<close> on that line,
  and the status bar it leaves is that payload.
\<close>

theorem handleSelectionChange_occurrence:
  assumes "languageId doc = ''javascript''" and "walks_return rs doc"
    and "occurs doc i m" and "find_resource rs (snd m) = Some r"
    and "getResourcePath r rs = Some path"
  shows "(\<exists>rest. drop (fst m) (lineAt doc i) = ''getRes('' @ snd m @ '')'' @ rest) \<and>
         scan_match rs active i m st =
           Some (if cursorOverlap active i m
                 then st\<lparr>statusBarItem := status_payload m path\<rparr>
                 else st\<lparr>decorations := decorations st @ [annotation i m path]\<rparr>) \<and>
         (\<exists>ed'. handleSelectionChange rs doc active ed = Some ed' \<and>
            (if cursorOverlap active i m
             then editor_statusBar ed' = status_payload m path \<and>
                  (\<forall>d \<in> set (editor_decorations ed').
                     range_start d \<noteq> \<lparr>line = i, character = fst m + 7 + length (snd m)\<rparr>)
             else annotation i m path \<in> set (editor_decorations ed')))"
proof (intro conjI)
  from assms(3) have "(fst m, snd m) \<in> set (matchAll 0 (lineAt doc i))" by (simp add: occurs_def)
  from matchAll_sound[OF this]
  show "\<exists>rest. drop (fst m) (lineAt doc i) = ''getRes('' @ snd m @ '')'' @ rest" by simp
next
  show "scan_match rs active i m st =
           Some (if cursorOverlap active i m
                 then st\<lparr>statusBarItem := status_payload m path\<rparr>
                 else st\<lparr>decorations := decorations st @ [annotation i m path]\<rparr>)"
    by (rule scan_match_resolved[OF assms(4,5)])
next
  from assms(4,5) have res: "resolves_to rs m path" by (auto simp: resolves_to_def)
  from handle_returns[OF assms(1,2)] obtain ed' where
    e: "handleSelectionChange rs doc active ed = Some ed'" ..
  show "\<exists>ed'. handleSelectionChange rs doc active ed = Some ed' \<and>
            (if cursorOverlap active i m
             then editor_statusBar ed' = status_payload m path \<and>
                  (\<forall>d \<in> set (editor_decorations ed').
                     range_start d \<noteq> \<lparr>line = i, character = fst m + 7 + length (snd m)\<rparr>)
             else annotation i m path \<in> set (editor_decorations ed'))"
  proof (cases "cursorOverlap active i m")
    case True
    have "editor_statusBar ed' = status_payload m path"
      by (rule handle_status[OF assms(1) e assms(3) res True])
    moreover have "range_start d \<noteq> \<lparr>line = i, character = fst m + 7 + length (snd m)\<rparr>"
      if "d \<in> set (editor_decorations ed')" for d
      by (rule handle_no_annotation_at[OF assms(1) e assms(3) _ that]) (rule True)
    ultimately show ?thesis using e True by auto
  next
    case False
    from handle_annotated[OF assms(1) e assms(3) res False] e False show ?thesis by auto
  qed
qed

lemma matchAll_doc_B: "matchAll 0 ''x = getRes(2)'' = [(4, ''2'')]"
  by code_simp

lemma scenario_B_facts:
  "languageId doc_B = ''javascript''" "occurs doc_B 0 (4, ''2'')"
  "find_resource [res_A, res_B] (snd (4::nat, ''2'')) = Some res_B"
  "getResourcePath res_B [res_A, res_B] = Some ''A-B''"
  by (simp add: doc_B_def, simp add: occurs_def doc_B_def matchAll_doc_B) code_simp+

theorem handleSelectionChange_occurrence_witness:
  "languageId doc_B = ''javascript'' \<and> walks_return [res_A, res_B] doc_B \<and>
   occurs doc_B 0 (4, ''2'') \<and>
   find_resource [res_A, res_B] ''2'' = Some res_B \<and>
   getResourcePath res_B [res_A, res_B] = Some ''A-B'' \<and>
   \<not> cursorOverlap \<lparr>line = 0, character = 0\<rparr> 0 (4, ''2'') \<and>
   (\<exists>ed'. handleSelectionChange [res_A, res_B] doc_B \<lparr>line = 0, character = 0\<rparr> ed_0 = Some ed' \<and>
      annotation 0 (4, ''2'') ''A-B'' \<in> set (editor_decorations ed')) \<and>
   cursorOverlap \<lparr>line = 0, character = 11\<rparr> 0 (4, ''2'') \<and>
   (\<exists>ed'. handleSelectionChange [res_A, res_B] doc_B \<lparr>line = 0, character = 11\<rparr> ed_0 = Some ed' \<and>
      editor_statusBar ed' = \<lparr>text_of = ''2:A-B'', shown = True\<rparr>)"
proof -
  have no: "\<not> cursorOverlap \<lparr>line = 0, character = 0\<rparr> 0 (4, ''2'')"
    and yes: "cursorOverlap \<lparr>line = 0, character = 11\<rparr> 0 (4, ''2'')"
    by (simp_all add: cursorOverlap_def)
  note t = handleSelectionChange_occurrence [OF scenario_B_facts(1) walks_return_scenario_A
      scenario_B_facts(2,3,4)]
  from t [of "\<lparr>line = 0, character = 0\<rparr>" _ ed_0] no
  have 1: "\<exists>ed'. handleSelectionChange [res_A, res_B] doc_B \<lparr>line = 0, character = 0\<rparr> ed_0 = Some ed' \<and>
      annotation 0 (4, ''2'') ''A-B'' \<in> set (editor_decorations ed')"
    by simp
  from t [of "\<lparr>line = 0, character = 11\<rparr>" _ ed_0] yes
  have 2: "\<exists>ed'. handleSelectionChange [res_A, res_B] doc_B \<lparr>line = 0, character = 11\<rparr> ed_0 = Some ed' \<and>
      editor_statusBar ed' = \<lparr>text_of = ''2:A-B'', shown = True\<rparr>"
    by (auto simp: status_payload_def)
  from 1 2 no yes scenario_B_facts walks_return_scenario_A show ?thesis by simp
qed

lemma provideHover_payload:
  assumes "provideHover rs doc pos = Some (Some h)"
  shows "\<exists>m' r path. match_first (lineAt doc (line pos)) = Some m' \<and>
           find_resource rs (snd m') = Some r \<and> getResourcePath r rs = Some path \<and>
           h = [Codeblock path ''typescript'', Text [CHR 0x0A], Codeblock (code r) ''css'']"
  using assms by (auto simp: provideHover_def Let_def split: option.splits)

text \<open>
  What the code does with an occurrence \<open>m\<close> whose digit run finds no record. The body
  of the scanner's loop returns the state it was given: no decoration is added and the
  status bar is not touched. In the decorations the handler sets, none stands at the
  \<open>idEnd\<close> of \<open>m\<close>; and when no occurrence of the document finds a record, the handler
  sets no decoration and leaves the status bar as it was. The hover provider returns
  \<^verbatim>\<open>undefined\<close> when \<open>m\<close> is the match it looks at, which is the first match of the
  line and not the one at the position; whatever payload it returns was built from a match
  that finds a record. No error value exists in these functions: ids are numbers or
  strings, on which \<^verbatim>\<open>toString\<close> cannot throw.
\<close>

theorem unresolved_occurrence_skipped:
  assumes "find_resource rs (snd m) = None"
  shows "scan_match rs active i m st = Some st \<and>
         (match_first (lineAt doc (line pos)) = Some m \<longrightarrow> provideHover rs doc pos = Some None) \<and>
         (\<forall>h. provideHover rs doc pos = Some (Some h) \<longrightarrow>
            (\<exists>m' r path. match_first (lineAt doc (line pos)) = Some m' \<and>
               find_resource rs (snd m') = Some r \<and> getResourcePath r rs = Some path \<and>
               h = [Codeblock path ''typescript'', Text [CHR 0x0A], Codeblock (code r) ''css''])) \<and>
         (languageId doc = ''javascript'' \<and> walks_return rs doc \<and> occurs doc i m \<longrightarrow>
            (\<exists>ed'. handleSelectionChange rs doc active ed = Some ed' \<and>
               (\<forall>d \<in> set (editor_decorations ed').
                  range_start d \<noteq> \<lparr>line = i, character = fst m + 7 + length (snd m)\<rparr>))) \<and>
         (languageId doc = ''javascript'' \<and>
          (\<forall>k m'. occurs doc k m' \<longrightarrow> find_resource rs (snd m') = None) \<longrightarrow>
            handleSelectionChange rs doc active ed =
              Some \<lparr>editor_decorations = [], editor_statusBar = editor_statusBar ed\<rparr>)"
proof (intro conjI impI allI)
  show "scan_match rs active i m st = Some st"
    by (rule scan_match_unresolved[OF assms])
next
  assume "match_first (lineAt doc (line pos)) = Some m"
  with assms show "provideHover rs doc pos = Some None"
    by (simp add: provideHover_def)
next
  fix h
  assume "provideHover rs doc pos = Some (Some h)"
  then show "\<exists>m' r path. match_first (lineAt doc (line pos)) = Some m' \<and>
               find_resource rs (snd m') = Some r \<and> getResourcePath r rs = Some path \<and>
               h = [Codeblock path ''typescript'', Text [CHR 0x0A], Codeblock (code r) ''css'']"
    by (rule provideHover_payload)
next
  assume a: "languageId doc = ''javascript'' \<and> walks_return rs doc \<and> occurs doc i m"
  then obtain ed' where e: "handleSelectionChange rs doc active ed = Some ed'"
    using handle_returns by blast
  from assms have nores: "cursorOverlap active i m" if "resolves_to rs m path" for path
    using that by (simp add: resolves_to_def)
  have "range_start d \<noteq> \<lparr>line = i, character = fst m + 7 + length (snd m)\<rparr>"
    if "d \<in> set (editor_decorations ed')" for d
    using a e nores that by (intro handle_no_annotation_at[of doc rs active ed ed' i m d]) auto
  with e show "\<exists>ed'. handleSelectionChange rs doc active ed = Some ed' \<and>
               (\<forall>d \<in> set (editor_decorations ed').
                  range_start d \<noteq> \<lparr>line = i, character = fst m + 7 + length (snd m)\<rparr>)"
    by blast
next
  assume "languageId doc = ''javascript'' \<and>
          (\<forall>k m'. occurs doc k m' \<longrightarrow> find_resource rs (snd m') = None)"
  then show "handleSelectionChange rs doc active ed =
              Some \<lparr>editor_decorations = [], editor_statusBar = editor_statusBar ed\<rparr>"
    by (intro handle_all_unresolved) auto
qed

lemma matchAll_doc_D: "matchAll 0 ''x = getRes(9)'' = [(4, ''9'')]"
  by code_simp

lemma scenario_D_facts:
  "find_resource [res_A, res_B] (snd (4::nat, ''9'')) = None"
  "match_first (lineAt doc_D (line \<lparr>line = 0, character = 11\<rparr>)) = Some (4, ''9'')"
  "languageId doc_D = ''javascript''"
  "occurs doc_D k m' \<longleftrightarrow> k = 0 \<and> m' = (4, ''9'')"
  by (code_simp, simp add: match_first_def doc_D_def matchAll_doc_D, simp add: doc_D_def,
      auto simp: occurs_def doc_D_def matchAll_doc_D)

theorem unresolved_occurrence_skipped_witness:
  "find_resource [res_A, res_B] ''9'' = None \<and>
   match_first (lineAt doc_D 0) = Some (4, ''9'') \<and>
   provideHover [res_A, res_B] doc_D \<lparr>line = 0, character = 11\<rparr> = Some None \<and>
   handleSelectionChange [res_A, res_B] doc_D \<lparr>line = 0, character = 11\<rparr> ed_0 =
     Some \<lparr>editor_decorations = [], editor_statusBar = editor_statusBar ed_0\<rparr>"
  using unresolved_occurrence_skipped [OF scenario_D_facts(1),
      where doc = doc_D and pos = "\<lparr>line = 0, character = 11\<rparr>"
        and active = "\<lparr>line = 0, character = 11\<rparr>" and i = 0 and ed = ed_0]
    scenario_D_facts
  by simp

section \<open>Looking a digit run up\<close>








section \<open>The hover provider on a line with several tokens\<close>

text \<open>
  Claim C7, at an input where the code departs from it. On the line
  \<^verbatim>\<open>getRes(1) getRes(2)\<close> with scenario A, offset 17 is on the id of the second token: the
  scanner's handler, given the cursor there, shows \<^verbatim>\<open>2:A-B\<close> in the status bar. The hover
  provider, asked at the same position, looks at the first match of the line only and
  returns the path and the code of resource 1.
\<close>

theorem provideHover_second_token:
  "matchAll 0 (lineAt doc_two 0) = [(0, ''1''), (10, ''2'')] \<and>
   cursorOverlap \<lparr>line = 0, character = 17\<rparr> 0 (10, ''2'') \<and>
   provideHover [res_A, res_B] doc_two \<lparr>line = 0, character = 17\<rparr> =
     Some (Some [Codeblock ''A'' ''typescript'', Text [CHR 0x0A], Codeblock ''.a {}'' ''css'']) \<and>
   handleSelectionChange [res_A, res_B] doc_two \<lparr>line = 0, character = 17\<rparr> ed_0 =
     Some \<lparr>editor_decorations = [annotation 0 (0, ''1'') ''A''],
           editor_statusBar = \<lparr>text_of = ''2:A-B'', shown = True\<rparr>\<rparr>"
  by code_simp

text \<open>
  Claim C6, at an input where the code departs from it. On the line
  \<^verbatim>\<open>getRes(1) getRes(9)\<close> with scenario A, the second token finds no record and offset 17
  is on its id. The scanner's handler, given the cursor there, skips the token: it sets
  the annotation of the first token only and leaves the status bar as it was. The hover
  provider, asked at the same position, looks at the first match of the line only and
  returns the payload of resource 1, where the claim says that no hover payload is
  produced. It is the departure of \<open>provideHover_second_token\<close>, met from an unresolved
  token.
\<close>

theorem provideHover_unresolved_token:
  "find_resource [res_A, res_B] ''9'' = None \<and>
   matchAll 0 (lineAt doc_unresolved 0) = [(0, ''1''), (10, ''9'')] \<and>
   cursorOverlap \<lparr>line = 0, character = 17\<rparr> 0 (10, ''9'') \<and>
   provideHover [res_A, res_B] doc_unresolved \<lparr>line = 0, character = 17\<rparr> =
     Some (Some [Codeblock ''A'' ''typescript'', Text [CHR 0x0A], Codeblock ''.a {}'' ''css'']) \<and>
   handleSelectionChange [res_A, res_B] doc_unresolved \<lparr>line = 0, character = 17\<rparr> ed_0 =
     Some \<lparr>editor_decorations = [annotation 0 (0, ''1'') ''A''],
           editor_statusBar = editor_statusBar ed_0\<rparr>"
  by code_simp

section \<open>Refreshing the snapshot\<close>

text \<open>
  Claim C5, as the code has it. When the connection or the query fails, the stored
  snapshot is the one from before, so the handler and the hover provider give what they
  gave before, an error message is shown to the user and a line is written to the console;
  when both succeed the snapshot is the fetched list, no message is shown and nothing is
  logged. The promise of \<^verbatim>\<open>fetchResources\<close> does not
  tell its caller which happened: how it settles depends on \<^verbatim>\<open>close\<close> alone.
\<close>

theorem fetchResources_keeps_snapshot_on_failure:
  "(\<not> connect_ok env \<or> toArray env = None \<longrightarrow>
      resources (snd (fetchResources env st)) = resources st \<and>
      messages (snd (fetchResources env st)) =
        messages st @ [ErrorMessage ''Failed to fetch resources. Please check your database connection.''] \<and>
      console (snd (fetchResources env st)) = console st @ [''Error fetching resources:''] \<and>
      handleSelectionChange (resources (snd (fetchResources env st))) doc active ed =
        handleSelectionChange (resources st) doc active ed \<and>
      provideHover (resources (snd (fetchResources env st))) doc pos =
        provideHover (resources st) doc pos) \<and>
   (connect_ok env \<and> toArray env = Some docs \<longrightarrow>
      resources (snd (fetchResources env st)) = docs \<and>
      messages (snd (fetchResources env st)) = messages st \<and>
      console (snd (fetchResources env st)) = console st) \<and>
   fst (fetchResources env st) = (if close_ok env then Fulfilled else Rejected)"
  by (auto simp: fetchResources_def fetch_failed_def Let_def split: option.splits)

theorem fetchResources_keeps_snapshot_on_failure_witness:
  "\<not> connect_ok env_down \<and>
   resources (snd (fetchResources env_down st_0)) = [res_A] \<and>
   messages (snd (fetchResources env_down st_0)) =
     [ErrorMessage ''Failed to fetch resources. Please check your database connection.''] \<and>
   connect_ok env_up \<and> toArray env_up = Some [res_A, res_B] \<and>
   resources (snd (fetchResources env_up st_0)) = [res_A, res_B]"
  using fetchResources_keeps_snapshot_on_failure [of env_down st_0]
    fetchResources_keeps_snapshot_on_failure [of env_up st_0 _ _ _ _ "[res_A, res_B]"]
  by (simp add: env_down_def env_up_def st_0_def)

text \<open>
  The claim C5 as stated says that the failure is reported to the caller. With a database
  that refuses the connection the promise is fulfilled, as it is after a successful fetch,
  and the refresh command that awaited it goes on to show its message.
\<close>

theorem fetchResources_failure_not_reported_counterexample:
  "\<not> connect_ok env_down \<and>
   fst (fetchResources env_down st_0) = Fulfilled \<and>
   fst (fetchResources env_up st_0) = Fulfilled \<and>
   refreshCommand env_down st_0 =
     (Fulfilled,
      \<lparr>resources = [res_A],
        messages = [ErrorMessage ''Failed to fetch resources. Please check your database connection.'',
                    InformationMessage ''resources data refreshed.''],
        console = [''Error fetching resources:'']\<rparr>)"
  by (simp add: fetchResources_def refreshCommand_def fetch_failed_def env_down_def env_up_def st_0_def)

end
